theory Spec2Isabelle
  imports Complex_Main
begin

section \<open>Guess the Phrase: input arbitration and round state machine\<close>

text \<open>
  The embedding follows \<open>app.js\<close> (the script that follows the README text) and
  \<open>movement.js\<close>, which holds a second copy of the swipe and tilt code with
  \<open>advance\<close> and \<open>endRound\<close> passed in as callbacks.

  Conventions of the model:
  \<^item> the mutable \<open>State\<close> object is a record that every function takes and returns;
    the few DOM elements the round logic writes (\<open>phraseEl\<close>, \<open>feedbackEl\<close>,
    \<open>tiltStatus\<close>, \<open>motionPermBtn.hidden\<close> and the results screen) are fields of the
    same record, as is the queue of pending \<open>setTimeout\<close> callbacks;
  \<^item> \<open>Date.now()\<close> is an explicit argument \<open>now\<close> (milliseconds, an integer);
  \<^item> JavaScript numbers that may be fractional (screen coordinates, the tilt angle
    \<open>beta\<close>, the timer length) are reals; the two subtractions of \<open>swipeEnd\<close>, whose
    results are compared with the swipe thresholds, round as double subtraction does
    (\<open>dsub\<close>), while the arithmetic on the tilt angle and the timer length is exact;
    counters and indices are naturals;
  \<^item> a call of the \<open>advance\<close> callback by a gesture handler of \<open>movement.js\<close> is the
    handler's output (an \<open>action option\<close>);
  \<^item> wake lock, orientation lock, vibration, settings storage and the HUD text, which
    never feed back into the round state, are left out.
\<close>

subsection \<open>Data\<close>

datatype mode = Setup | Running | Finished

datatype action = Got | Pass | Next

type_synonym card = "string \<times> string"

text \<open>The two callbacks the program hands to \<open>setTimeout\<close>: the one of \<open>advance\<close>
  (it captured \<open>atEnd\<close>) and the one of \<open>endRound\<close> (it captured \<open>reason\<close>).\<close>

datatype callback = AdvanceTimeout bool | EndRoundTimeout string

text \<open>The second argument of \<open>setTiltStatus\<close>; the text put on the page is
  \<open>Tilt: On\<close> or \<open>Tilt: Off\<close> followed by it.\<close>

datatype tilt_phase =
    PhOff | PhNeedsPermission | PhReady | PhNeutral
  | PhForwardHold | PhBackwardHold | PhGotIt | PhPass | PhForward | PhBackward

datatype status_text = NoText | TiltText bool tilt_phase

text \<open>What \<open>renderResults\<close> writes on the results screen.\<close>

record Results =
  statTotal :: nat
  statGot :: nat
  statPass :: nat
  detailsReason :: string
  detailsTotal :: nat
  detailsRemaining :: nat

record State =
  mode :: mode
  phrasesOriginal :: "card list"
  deck :: "card list"
  index :: nat
  shown :: nat
  got :: nat
  pass :: nat
  timerSeconds :: real
  timeLeft :: real
  timerId :: "int option"
  shuffleOnStart :: bool
  loopWhenFinished :: bool
  tiltEnabled :: bool
  tiltPermissionGranted :: bool
  tiltListenerAttached :: bool
  tiltLastActionAt :: int
  tiltArmed :: bool
  tiltNeutralBeta :: real
  tiltHasBaseline :: bool
  needsMotionPermission :: bool
  phraseEl :: string
  feedbackEl :: "(string \<times> string) option"
  tiltStatus :: status_text
  motionPermBtnHidden :: bool
  results :: "Results option"
  timeouts :: "(int \<times> callback) list"

text \<open>
  \<open>timerId\<close> is \<open>Some startedAt\<close> while the interval of \<open>startTimer\<close> is live
  (\<open>startedAt\<close> is the constant its closure captured) and \<open>None\<close> for \<open>null\<close>.
  \<open>needsMotionPermission\<close> is what \<open>isIOSNeedsMotionPermission()\<close> returns in the
  browser at hand. \<open>timeouts\<close> holds the pending \<open>setTimeout\<close> callbacks with the
  time each is due, earliest first.
\<close>

record Swipe =
  active :: bool
  startX :: real
  startY :: real
  startT :: int

subsection \<open>Tuning constants\<close>

definition SWIPE_THRESHOLD_PX :: real where "SWIPE_THRESHOLD_PX = 42"
definition SWIPE_MAX_OFF_AXIS :: real where "SWIPE_MAX_OFF_AXIS = 80"
definition SWIPE_MAX_MS :: int where "SWIPE_MAX_MS = 800"

definition forwardTriggerDelta :: real where "forwardTriggerDelta = 18"
definition backwardTriggerDelta :: real where "backwardTriggerDelta = - 18"
definition neutralZoneAbs :: real where "neutralZoneAbs = 10"
definition minIntervalMs :: int where "minIntervalMs = 700"
definition baselineSmoothing :: real where "baselineSmoothing = 12 / 100"

subsection \<open>Timeouts\<close>

text \<open>\<open>setTimeout\<close>: the callback joins the queue behind every callback due no later
  than it.\<close>

fun insertTimeout :: "int \<times> callback \<Rightarrow> (int \<times> callback) list \<Rightarrow> (int \<times> callback) list" where
  "insertTimeout e [] = [e]"
| "insertTimeout e (x # xs) = (if fst e < fst x then e # x # xs else x # insertTimeout e xs)"

definition setTimeout :: "callback \<Rightarrow> int \<Rightarrow> int \<Rightarrow> State \<Rightarrow> State" where
  "setTimeout cb delay now s = s\<lparr>timeouts := insertTimeout (now + delay, cb) (timeouts s)\<rparr>"

subsection \<open>UI helpers\<close>

definition tiltStatusText :: "State \<Rightarrow> tilt_phase \<Rightarrow> status_text" where
  "tiltStatusText s extra = TiltText (tiltEnabled s) extra"

definition setTiltStatus :: "tilt_phase \<Rightarrow> State \<Rightarrow> State" where
  "setTiltStatus extra s =
     (if mode s \<noteq> Running then s else s\<lparr>tiltStatus := tiltStatusText s extra\<rparr>)"

definition setScreen :: "mode \<Rightarrow> State \<Rightarrow> State" where
  "setScreen m s =
     (let s1 = s\<lparr>mode := m\<rparr>
      in s1\<lparr>tiltStatus :=
           (if m = Running then tiltStatusText s1 (if tiltEnabled s1 then PhReady else PhOff)
            else NoText)\<rparr>)"

definition showFeedback :: "string \<Rightarrow> string \<Rightarrow> State \<Rightarrow> State" where
  "showFeedback kind txt s = s\<lparr>feedbackEl := Some (kind, txt)\<rparr>"

definition hideFeedback :: "State \<Rightarrow> State" where
  "hideFeedback s = s\<lparr>feedbackEl := None\<rparr>"

definition renderCurrentPhrase :: "State \<Rightarrow> State" where
  "renderCurrentPhrase s =
     s\<lparr>phraseEl := (if index s < length (deck s) then fst (deck s ! index s) else ''Done!'')\<rparr>"

definition renderResults :: "string \<Rightarrow> State \<Rightarrow> State" where
  "renderResults reason s =
     s\<lparr>results := Some \<lparr>statTotal = shown s, statGot = got s, statPass = pass s,
          detailsReason = reason, detailsTotal = length (deck s),
          detailsRemaining = length (deck s) - shown s\<rparr>\<rparr>"

subsection \<open>Deck\<close>

text \<open>\<open>fisherYatesShuffle\<close>: \<open>rnd i\<close> is the value \<open>Math.random()\<close> returns in the
  iteration with loop index \<open>i\<close>, a number in \<open>[0, 1)\<close>. The loop runs \<open>i\<close> from
  \<open>length - 1\<close> down to 1.\<close>

fun fisherYatesLoop :: "(nat \<Rightarrow> real) \<Rightarrow> nat \<Rightarrow> 'a list \<Rightarrow> 'a list" where
  "fisherYatesLoop rnd 0 arr = arr"
| "fisherYatesLoop rnd (Suc i) arr =
     (let j = nat \<lfloor>rnd (Suc i) * real (Suc i + 1)\<rfloor>
      in fisherYatesLoop rnd i (arr[Suc i := arr ! j, j := arr ! Suc i]))"

definition fisherYatesShuffle :: "(nat \<Rightarrow> real) \<Rightarrow> 'a list \<Rightarrow> 'a list" where
  "fisherYatesShuffle rnd arr = fisherYatesLoop rnd (length arr - 1) arr"

definition buildDeck :: "(nat \<Rightarrow> real) \<Rightarrow> State \<Rightarrow> card list \<Rightarrow> card list" where
  "buildDeck rnd s phrases =
     (if shuffleOnStart s then fisherYatesShuffle rnd phrases else phrases)"

subsection \<open>Timer and tilt listener\<close>

definition stopTimer :: "State \<Rightarrow> State" where
  "stopTimer s = (if timerId s \<noteq> None then s\<lparr>timerId := None\<rparr> else s)"

definition attachTiltListener :: "State \<Rightarrow> State" where
  "attachTiltListener s =
     (if tiltListenerAttached s then s else s\<lparr>tiltListenerAttached := True\<rparr>)"

definition disableTiltListener :: "State \<Rightarrow> State" where
  "disableTiltListener s =
     (if \<not> tiltListenerAttached s then s else s\<lparr>tiltListenerAttached := False\<rparr>)"

definition maybeEnableTiltDuringGame :: "State \<Rightarrow> State" where
  "maybeEnableTiltDuringGame s =
     (if \<not> tiltEnabled s then
        setTiltStatus PhOff (disableTiltListener (s\<lparr>motionPermBtnHidden := True\<rparr>))
      else if needsMotionPermission s \<and> \<not> tiltPermissionGranted s then
        setTiltStatus PhNeedsPermission (s\<lparr>motionPermBtnHidden := False\<rparr>)
      else
        setTiltStatus PhReady (attachTiltListener (s\<lparr>motionPermBtnHidden := True\<rparr>)))"

subsection \<open>Gameplay\<close>

text \<open>\<open>endRound\<close> has no test of \<open>State.mode\<close>; the switch to the results screen is
  the body of its 250 ms timeout.\<close>

definition endRound :: "string \<Rightarrow> int \<Rightarrow> State \<Rightarrow> State" where
  "endRound reason now s =
     setTimeout (EndRoundTimeout reason) 250 now
       (showFeedback ''end'' ''Round ended'' (disableTiltListener (stopTimer s)))"

text \<open>\<open>State.deck[State.index]\<close> is \<open>undefined\<close> exactly when the index is not below
  the length; every deck entry is an object, hence truthy.\<close>

definition advance :: "action \<Rightarrow> int \<Rightarrow> State \<Rightarrow> State" where
  "advance act now s =
     (if mode s \<noteq> Running then s
      else if \<not> index s < length (deck s) then
        (if loopWhenFinished s \<and> length (deck s) > 0
         then renderCurrentPhrase (s\<lparr>index := 0\<rparr>)
         else endRound ''Reached the end of the list'' now s)
      else
        let s1 = s\<lparr>shown := shown s + 1\<rparr>;
            s2 = (if act = Got then s1\<lparr>got := got s1 + 1\<rparr> else s1);
            s3 = (if act = Pass then s2\<lparr>pass := pass s2 + 1\<rparr> else s2);
            s4 = (if act = Got then showFeedback ''got'' ''Got it!'' s3
                  else if act = Pass then showFeedback ''pass'' ''Pass!'' s3
                  else showFeedback '''' ''Next'' s3);
            s5 = s4\<lparr>index := index s4 + 1\<rparr>;
            atEnd = (index s5 \<ge> length (deck s5))
        in setTimeout (AdvanceTimeout atEnd) 420 now s5)"

text \<open>The bodies of the two timeout callbacks, run at time \<open>now\<close>. They read the state
  as it is when they fire.\<close>

fun runCallback :: "callback \<Rightarrow> int \<Rightarrow> State \<Rightarrow> State" where
  "runCallback (EndRoundTimeout reason) now s =
     hideFeedback (renderResults reason (setScreen Finished s))"
| "runCallback (AdvanceTimeout atEnd) now s =
     (let s1 = hideFeedback s
      in if atEnd then
           (if loopWhenFinished s1 \<and> length (deck s1) > 0
            then renderCurrentPhrase (s1\<lparr>index := 0\<rparr>)
            else endRound ''Reached the end of the list'' now s1)
         else renderCurrentPhrase s1)"

definition startTimer :: "int \<Rightarrow> State \<Rightarrow> State" where
  "startTimer now s = (stopTimer s)\<lparr>timerId := Some now\<rparr>"

text \<open>The interval callback of \<open>startTimer\<close>. A cleared interval never calls it, so
  with \<open>timerId = None\<close> nothing happens.\<close>

definition timerTick :: "int \<Rightarrow> State \<Rightarrow> State" where
  "timerTick now s =
     (case timerId s of
        None \<Rightarrow> s
      | Some startedAt \<Rightarrow>
          let elapsed = (now - startedAt) div 1000;
              s1 = s\<lparr>timeLeft := max 0 (timerSeconds s - of_int elapsed)\<rparr>
          in if timeLeft s1 \<le> 0 then endRound ''Time is up'' now s1 else s1)"

text \<open>\<open>startRound\<close>: \<open>phrases\<close> is the value of \<open>parsePhrases(phrasesInput.value)\<close>.
  The result is the text passed to \<open>alert\<close>, if any, and the new state.\<close>

definition startRound :: "(nat \<Rightarrow> real) \<Rightarrow> int \<Rightarrow> card list \<Rightarrow> State \<Rightarrow> string option \<times> State" where
  "startRound rnd now phrases s =
     (if length phrases = 0 then (Some ''Please add at least one phrase to start.'', s)
      else
        let s1 = s\<lparr>phrasesOriginal := phrases, deck := buildDeck rnd s phrases\<rparr>;
            s2 = s1\<lparr>index := 0, shown := 0, got := 0, pass := 0\<rparr>;
            s3 = s2\<lparr>timeLeft := timerSeconds s2\<rparr>;
            s4 = s3\<lparr>tiltLastActionAt := 0, tiltArmed := True, tiltHasBaseline := False\<rparr>;
            s5 = renderCurrentPhrase (hideFeedback (setScreen Running s4));
            s6 = maybeEnableTiltDuringGame s5
        in (None, startTimer now s6))"

subsection \<open>The event loop's timeouts\<close>

fun cbWeight :: "callback \<Rightarrow> nat" where
  "cbWeight (AdvanceTimeout atEnd) = 2"
| "cbWeight (EndRoundTimeout reason) = 1"

definition pendingWeight :: "State \<Rightarrow> nat" where
  "pendingWeight s = sum_list (map (\<lambda>e. cbWeight (snd e)) (timeouts s))"

text \<open>\<open>drain\<close> lets every pending timeout fire, earliest first, each at the time it
  is due, until none is left: the state the page settles in when no further input
  arrives. \<open>runDue now\<close> fires only those due by \<open>now\<close>.\<close>

function drain :: "State \<Rightarrow> State" where
  "drain s =
     (case timeouts s of
        [] \<Rightarrow> s
      | e # rest \<Rightarrow> drain (runCallback (snd e) (fst e) (s\<lparr>timeouts := rest\<rparr>)))"
  by pat_completeness auto
termination
proof (relation "measure pendingWeight")
  show "wf (measure pendingWeight)" by simp
next
  fix s :: State and e rest
  assume q: "timeouts s = e # rest"
  have ins: "sum_list (map (\<lambda>e. cbWeight (snd e)) (insertTimeout x xs))
      = cbWeight (snd x) + sum_list (map (\<lambda>e. cbWeight (snd e)) xs)" for x xs
    by (induction xs) auto
  have "pendingWeight (runCallback cb t (s\<lparr>timeouts := rest\<rparr>))
      < cbWeight cb + sum_list (map (\<lambda>e. cbWeight (snd e)) rest)" for cb t
    by (cases cb)
       (simp_all add: pendingWeight_def ins endRound_def setTimeout_def showFeedback_def
          hideFeedback_def renderResults_def renderCurrentPhrase_def setScreen_def
          disableTiltListener_def stopTimer_def Let_def)
  then show "(runCallback (snd e) (fst e) (s\<lparr>timeouts := rest\<rparr>), s) \<in> measure pendingWeight"
    using q by (simp add: pendingWeight_def)
qed

function runDue :: "int \<Rightarrow> State \<Rightarrow> State" where
  "runDue now s =
     (case timeouts s of
        [] \<Rightarrow> s
      | e # rest \<Rightarrow>
          if fst e \<le> now
          then runDue now (runCallback (snd e) (fst e) (s\<lparr>timeouts := rest\<rparr>))
          else s)"
  by pat_completeness auto
termination
proof (relation "measure (\<lambda>(now, s). pendingWeight s)")
  show "wf (measure (\<lambda>(now :: int, s). pendingWeight s))" by simp
next
  fix now :: int and s :: State and e rest
  assume q: "timeouts s = e # rest"
  have ins: "sum_list (map (\<lambda>e. cbWeight (snd e)) (insertTimeout x xs))
      = cbWeight (snd x) + sum_list (map (\<lambda>e. cbWeight (snd e)) xs)" for x xs
    by (induction xs) auto
  have "pendingWeight (runCallback cb t (s\<lparr>timeouts := rest\<rparr>))
      < cbWeight cb + sum_list (map (\<lambda>e. cbWeight (snd e)) rest)" for cb t
    by (cases cb)
       (simp_all add: pendingWeight_def ins endRound_def setTimeout_def showFeedback_def
          hideFeedback_def renderResults_def renderCurrentPhrase_def setScreen_def
          disableTiltListener_def stopTimer_def Let_def)
  then show "((now, runCallback (snd e) (fst e) (s\<lparr>timeouts := rest\<rparr>)), (now, s))
      \<in> measure (\<lambda>(now, s). pendingWeight s)"
    using q by (simp add: pendingWeight_def)
qed

declare drain.simps [simp del] runDue.simps [simp del]

subsection \<open>Subtraction of JavaScript numbers\<close>

text \<open>
  A JavaScript number is an IEEE 754 double, and \<open>a - b\<close> is the exact difference
  rounded to the nearest double, ties to the even significand. \<open>roundDouble\<close> rounds
  a real to 53 significant bits: \<open>expo a\<close> is the binary exponent of a positive \<open>a\<close>
  (\<open>2 ^ expo a \<le> a < 2 ^ (expo a + 1)\<close>), the spacing of the doubles around \<open>r\<close> is
  \<open>2 ^ (expo \<bar>r\<bar> - 52)\<close>, and never below \<open>2 ^ (- 1074)\<close>, the spacing of the
  subnormal numbers. A result of magnitude \<open>2 ^ 1024\<close> or more stands for an infinity
  of the same sign, which compares with the thresholds below in the same way. In
  \<open>dsub\<close> the operands are rounded first: a real that is not a double stands for the
  double nearest to it, as a decimal literal does.
\<close>

fun bitLength :: "nat \<Rightarrow> nat" where
  "bitLength n = (if n = 0 then 0 else Suc (bitLength (n div 2)))"

declare bitLength.simps [simp del]

definition expo :: "real \<Rightarrow> int" where
  "expo a = (if 1 \<le> a then int (bitLength (nat \<lfloor>a\<rfloor>)) - 1
             else - int (bitLength (nat \<lceil>1 / a\<rceil> - 1)))"

definition pow2 :: "int \<Rightarrow> real" where
  "pow2 k = (if 0 \<le> k then 2 ^ nat k else 1 / 2 ^ nat (- k))"

definition roundEven :: "real \<Rightarrow> int" where
  "roundEven q =
     (let f = \<lfloor>q\<rfloor>; d = q - of_int f
      in if d < 1 / 2 then f else if d > 1 / 2 then f + 1 else if even f then f else f + 1)"

definition roundDouble :: "real \<Rightarrow> real" where
  "roundDouble r =
     (if r = 0 then 0
      else let k = max (expo \<bar>r\<bar> - 52) (- 1074)
           in of_int (roundEven (r / pow2 k)) * pow2 k)"

definition dsub :: "real \<Rightarrow> real \<Rightarrow> real" where
  "dsub a b = roundDouble (roundDouble a - roundDouble b)"

subsection \<open>Swipe detector\<close>

definition swipeStart :: "real \<Rightarrow> real \<Rightarrow> int \<Rightarrow> State \<Rightarrow> Swipe \<Rightarrow> Swipe" where
  "swipeStart x y now s sw =
     (if mode s \<noteq> Running then sw
      else sw\<lparr>active := True, startX := x, startY := y, startT := now\<rparr>)"

definition swipeEnd :: "real \<Rightarrow> real \<Rightarrow> int \<Rightarrow> State \<Rightarrow> Swipe \<Rightarrow> Swipe \<times> action option" where
  "swipeEnd x y now s sw =
     (if \<not> active sw \<or> mode s \<noteq> Running then (sw, None)
      else
        let sw1 = sw\<lparr>active := False\<rparr>;
            dx = dsub x (startX sw1);
            dy = dsub y (startY sw1);
            dt = now - startT sw1;
            absX = \<bar>dx\<bar>;
            absY = \<bar>dy\<bar>;
            isQuickEnough = (dt \<le> SWIPE_MAX_MS);
            isFarEnough = (absX \<ge> SWIPE_THRESHOLD_PX);
            isMostlyHorizontal = (absY \<le> SWIPE_MAX_OFF_AXIS)
        in if isQuickEnough \<and> isFarEnough \<and> isMostlyHorizontal
           then (if dx > 0 then (sw1, Some Got) else (sw1, Some Pass))
           else (sw1, None))"

subsection \<open>Tilt recognizer\<close>

definition shouldListenTilt :: "State \<Rightarrow> bool" where
  "shouldListenTilt s \<longleftrightarrow> tiltEnabled s \<and> mode s = Running"

definition calibrateBaseline :: "real \<Rightarrow> State \<Rightarrow> State" where
  "calibrateBaseline beta s =
     (if \<not> tiltHasBaseline s then s\<lparr>tiltNeutralBeta := beta, tiltHasBaseline := True\<rparr>
      else
        let delta = beta - tiltNeutralBeta s
        in if \<bar>delta\<bar> \<le> neutralZoneAbs + 4
           then s\<lparr>tiltNeutralBeta := tiltNeutralBeta s + delta * baselineSmoothing\<rparr>
           else s)"

text \<open>\<open>onDeviceOrientation\<close>: the argument is \<open>e.beta\<close> when it is a number and
  \<open>None\<close> otherwise.\<close>

definition onDeviceOrientation :: "real option \<Rightarrow> int \<Rightarrow> State \<Rightarrow> State \<times> action option" where
  "onDeviceOrientation e_beta now s =
     (if \<not> shouldListenTilt s then (s, None)
      else case e_beta of
        None \<Rightarrow> (s, None)
      | Some beta \<Rightarrow>
          let s1 = calibrateBaseline beta s;
              delta = beta - tiltNeutralBeta s1
          in if \<not> tiltArmed s1 then
               (if \<bar>delta\<bar> \<le> neutralZoneAbs
                then (setTiltStatus PhNeutral (s1\<lparr>tiltArmed := True\<rparr>), None)
                else (setTiltStatus (if delta > 0 then PhForwardHold else PhBackwardHold) s1, None))
             else if now - tiltLastActionAt s1 < minIntervalMs then (s1, None)
             else if delta \<ge> forwardTriggerDelta then
               (setTiltStatus PhGotIt (s1\<lparr>tiltArmed := False, tiltLastActionAt := now\<rparr>), Some Got)
             else if delta \<le> backwardTriggerDelta then
               (setTiltStatus PhPass (s1\<lparr>tiltArmed := False, tiltLastActionAt := now\<rparr>), Some Pass)
             else if \<bar>delta\<bar> \<le> neutralZoneAbs then (setTiltStatus PhNeutral s1, None)
             else (setTiltStatus (if delta > 0 then PhForward else PhBackward) s1, None))"

text \<open>A stream of orientation samples, each with the time it arrives; the result lists
  what each sample emitted and gives the state after the last one.\<close>

fun tiltRun :: "(real option \<times> int) list \<Rightarrow> State \<Rightarrow> action option list \<times> State" where
  "tiltRun [] s = ([], s)"
| "tiltRun (e # es) s =
     (case onDeviceOrientation (fst e) (snd e) s of
        (s', a) \<Rightarrow> (case tiltRun es s' of (acts, s'') \<Rightarrow> (a # acts, s'')))"

text \<open>\<open>onRoundStartResetTiltState\<close> of \<open>movement.js\<close>.\<close>

definition onRoundStartResetTiltState :: "State \<Rightarrow> State" where
  "onRoundStartResetTiltState s =
     s\<lparr>tiltLastActionAt := 0, tiltArmed := True, tiltHasBaseline := False\<rparr>"

subsection \<open>Example states\<close>

text \<open>The \<open>State\<close> object as the script declares it, in a browser with no motion
  permission gate, before any input.\<close>

definition State0 :: State where
  "State0 = \<lparr>mode = Setup, phrasesOriginal = [], deck = [], index = 0, shown = 0, got = 0,
     pass = 0, timerSeconds = 60, timeLeft = 60, timerId = None, shuffleOnStart = True,
     loopWhenFinished = False, tiltEnabled = False, tiltPermissionGranted = False,
     tiltListenerAttached = False, tiltLastActionAt = 0, tiltArmed = True,
     tiltNeutralBeta = 0, tiltHasBaseline = False, needsMotionPermission = False,
     phraseEl = [], feedbackEl = None, tiltStatus = NoText, motionPermBtnHidden = True,
     results = None, timeouts = []\<rparr>"

definition Swipe0 :: Swipe where
  "Swipe0 = \<lparr>active = False, startX = 0, startY = 0, startT = 0\<rparr>"

definition deck3 :: "card list" where
  "deck3 = [(''Popcorn'', ''Snack''), (''Snow day'', ''No school''), (''The moon'', ''Night sky'')]"

definition running1 :: State where
  "running1 = State0\<lparr>mode := Running\<rparr>"

text \<open>A three-card round as \<open>startRound\<close> leaves it, with shuffling and looping off.\<close>

definition round3 :: State where
  "round3 = snd (startRound (\<lambda>i. 0) 0 deck3 (State0\<lparr>shuffleOnStart := False\<rparr>))"

definition threeGots :: State where
  "threeGots = advance Got 200 (advance Got 100 (advance Got 0 round3))"

definition finishedEarly :: State where
  "finishedEarly = drain (endRound ''Ended early'' 5000 round3)"

text \<open>The End button pressed 300 ms into the round, 100 ms after the third card was
  swiped away: the feedback timeouts of the three \<open>advance\<close> calls are still pending.\<close>

definition endedWhileClosing :: State where
  "endedWhileClosing = endRound ''Ended early'' 300 threeGots"

text \<open>A running round with tilt on, right after the reset of the tilt state, and the
  same round once a first sample at 40 degrees has set the baseline.\<close>

definition tiltFresh :: State where
  "tiltFresh = onRoundStartResetTiltState (State0\<lparr>mode := Running, tiltEnabled := True\<rparr>)"

definition tiltHeld :: State where
  "tiltHeld = tiltFresh\<lparr>tiltNeutralBeta := 40, tiltHasBaseline := True\<rparr>"

subsection \<open>Agreement on the round\<close>

text \<open>Two states agree on everything the round controller decides from.\<close>

definition sameRound :: "State \<Rightarrow> State \<Rightarrow> bool" where
  "sameRound s s' \<longleftrightarrow>
     mode s' = mode s \<and> deck s' = deck s \<and> index s' = index s \<and> shown s' = shown s
     \<and> got s' = got s \<and> pass s' = pass s \<and> results s' = results s
     \<and> loopWhenFinished s' = loopWhenFinished s"

section \<open>Basic facts\<close>

lemmas ui_defs = setScreen_def hideFeedback_def showFeedback_def renderCurrentPhrase_def
  renderResults_def setTiltStatus_def tiltStatusText_def

lemmas listener_defs = stopTimer_def attachTiltListener_def disableTiltListener_def
  maybeEnableTiltDuringGame_def startTimer_def

lemmas tilt_defs = onDeviceOrientation_def calibrateBaseline_def setTiltStatus_def
  tiltStatusText_def shouldListenTilt_def minIntervalMs_def neutralZoneAbs_def
  forwardTriggerDelta_def backwardTriggerDelta_def baselineSmoothing_def

lemma drain_Nil: "timeouts s = [] \<Longrightarrow> drain s = s"
  by (subst drain.simps) simp

lemma drain_Cons:
  "timeouts s = e # rest \<Longrightarrow>
     drain s = drain (runCallback (snd e) (fst e) (s\<lparr>timeouts := rest\<rparr>))"
  by (subst drain.simps) simp

lemma runDue_Nil: "timeouts s = [] \<Longrightarrow> runDue now s = s"
  by (subst runDue.simps) simp

lemma runDue_Cons:
  "timeouts s = e # rest \<Longrightarrow> runDue now s =
     (if fst e \<le> now then runDue now (runCallback (snd e) (fst e) (s\<lparr>timeouts := rest\<rparr>))
      else s)"
  by (subst runDue.simps) simp

lemma stopTimer_eq: "stopTimer s = s\<lparr>timerId := None\<rparr>"
  by (cases s) (simp add: stopTimer_def)

lemma disableTiltListener_eq: "disableTiltListener s = s\<lparr>tiltListenerAttached := False\<rparr>"
  by (cases s) (simp add: disableTiltListener_def)

lemma endRound_eq:
  "endRound reason now s = s\<lparr>timerId := None, tiltListenerAttached := False,
     feedbackEl := Some (''end'', ''Round ended''),
     timeouts := insertTimeout (now + 250, EndRoundTimeout reason) (timeouts s)\<rparr>"
  by (simp add: endRound_def setTimeout_def showFeedback_def stopTimer_eq disableTiltListener_eq)

lemma runCallback_EndRound_eq:
  "runCallback (EndRoundTimeout reason) now s =
     s\<lparr>mode := Finished, feedbackEl := None, tiltStatus := NoText,
       results := Some \<lparr>statTotal = shown s, statGot = got s, statPass = pass s,
          detailsReason = reason, detailsTotal = length (deck s),
          detailsRemaining = length (deck s) - shown s\<rparr>\<rparr>"
  by (simp add: setScreen_def renderResults_def hideFeedback_def Let_def)

lemma runCallback_render_eq:
  "runCallback (AdvanceTimeout False) now s =
     s\<lparr>feedbackEl := None,
       phraseEl := (if index s < length (deck s) then fst (deck s ! index s) else ''Done!'')\<rparr>"
  by (simp add: hideFeedback_def renderCurrentPhrase_def Let_def)

lemma runCallback_atEnd_eq:
  "\<not> loopWhenFinished s \<Longrightarrow> runCallback (AdvanceTimeout True) now s =
     endRound ''Reached the end of the list'' now (s\<lparr>feedbackEl := None\<rparr>)"
  by (simp add: hideFeedback_def Let_def)

declare runCallback.simps [simp del]

lemma advance_eq:
  "mode s = Running \<Longrightarrow> index s < length (deck s) \<Longrightarrow>
   advance act now s =
     s\<lparr>shown := shown s + 1,
       got := (if act = Got then got s + 1 else got s),
       pass := (if act = Pass then pass s + 1 else pass s),
       feedbackEl := (if act = Got then Some (''got'', ''Got it!'')
                      else if act = Pass then Some (''pass'', ''Pass!'') else Some ([], ''Next'')),
       index := index s + 1,
       timeouts := insertTimeout (now + 420, AdvanceTimeout (length (deck s) \<le> index s + 1))
                     (timeouts s)\<rparr>"
  by (cases act) (simp_all add: advance_def Let_def showFeedback_def setTimeout_def)

lemma set_insertTimeout: "set (insertTimeout e xs) = insert e (set xs)"
  by (induction xs) auto

lemma insertTimeout_last:
  "\<forall>x \<in> set xs. fst x \<le> fst e \<Longrightarrow> insertTimeout e xs = xs @ [e]"
  by (induction xs) auto

lemma round3_eq:
  "round3 = State0\<lparr>mode := Running, phrasesOriginal := deck3, deck := deck3,
     shuffleOnStart := False, timerId := Some 0, phraseEl := ''Popcorn'',
     tiltStatus := TiltText False PhOff\<rparr>"
  by (simp add: round3_def startRound_def State0_def deck3_def buildDeck_def Let_def
      ui_defs listener_defs)

lemma threeGots_eq:
  "threeGots = round3\<lparr>index := 3, shown := 3, got := 3,
     feedbackEl := Some (''got'', ''Got it!''),
     timeouts := [(420, AdvanceTimeout False), (520, AdvanceTimeout False),
       (620, AdvanceTimeout True)]\<rparr>"
  by (simp add: threeGots_def round3_eq State0_def deck3_def advance_eq)

subsection \<open>Timeouts that only end the round or only render\<close>

lemma drain_EndRound_only:
  "timeouts s \<noteq> [] \<Longrightarrow> \<forall>e \<in> set (timeouts s). snd e = EndRoundTimeout reason \<Longrightarrow>
     drain s = runCallback (EndRoundTimeout reason) 0 (s\<lparr>timeouts := []\<rparr>)"
proof (induction "timeouts s" arbitrary: s)
  case Nil
  then show ?case by simp
next
  case (Cons e rest)
  let ?s1 = "runCallback (snd e) (fst e) (s\<lparr>timeouts := rest\<rparr>)"
  have e: "snd e = EndRoundTimeout reason"
    using Cons.hyps(2) Cons.prems(2) by (metis list.set_intros(1))
  have step: "drain s = drain ?s1"
    using Cons.hyps(2) by (simp add: drain_Cons)
  have q: "timeouts ?s1 = rest"
    by (simp add: e runCallback_EndRound_eq)
  show ?case
  proof (cases rest)
    case Nil
    with q have "drain ?s1 = ?s1" by (simp add: drain_Nil)
    with step Nil show ?thesis by (simp add: e runCallback_EndRound_eq)
  next
    case (Cons e' rest')
    have ne: "timeouts ?s1 \<noteq> []" unfolding q using Cons by simp
    have "\<forall>x \<in> set (timeouts ?s1). snd x = EndRoundTimeout reason"
      using q Cons.hyps(2) Cons.prems(2) by (metis list.set_intros(2))
    then have "drain ?s1 = runCallback (EndRoundTimeout reason) 0 (?s1\<lparr>timeouts := []\<rparr>)"
      by (rule Cons.hyps(1) [OF q [symmetric] ne])
    with step show ?thesis by (simp add: e runCallback_EndRound_eq)
  qed
qed

lemma runDue_render_only:
  "\<forall>e \<in> set (timeouts s). snd e = AdvanceTimeout False \<and> fst e \<le> b \<Longrightarrow>
     sameRound s (runDue now s)
     \<and> (\<forall>e \<in> set (timeouts (runDue now s)). snd e = AdvanceTimeout False \<and> fst e \<le> b)"
proof (induction "timeouts s" arbitrary: s)
  case Nil
  then show ?case by (simp add: runDue_Nil sameRound_def)
next
  case (Cons e rest)
  let ?s1 = "runCallback (snd e) (fst e) (s\<lparr>timeouts := rest\<rparr>)"
  have q: "timeouts s = e # rest" using Cons.hyps(2) by simp
  have e: "snd e = AdvanceTimeout False"
    using q Cons.prems by simp
  have q1: "timeouts ?s1 = rest" and same: "sameRound s ?s1"
    by (simp_all add: e runCallback_render_eq sameRound_def)
  have p1: "\<forall>x \<in> set (timeouts ?s1). snd x = AdvanceTimeout False \<and> fst x \<le> b"
    using q Cons.prems unfolding q1 by simp
  have ih: "sameRound ?s1 (runDue now ?s1)
     \<and> (\<forall>x \<in> set (timeouts (runDue now ?s1)). snd x = AdvanceTimeout False \<and> fst x \<le> b)"
    by (rule Cons.hyps(1) [OF q1 [symmetric] p1])
  show ?case
  proof (cases "fst e \<le> now")
    case True
    then have "runDue now s = runDue now ?s1" using q by (simp add: runDue_Cons)
    with ih same show ?thesis by (simp add: sameRound_def)
  next
    case False
    then have "runDue now s = s" using q by (simp add: runDue_Cons)
    with Cons.prems show ?thesis by (simp add: sameRound_def)
  qed
qed

lemma drain_reached_end:
  "timeouts s = pre @ [(t, AdvanceTimeout True)] \<Longrightarrow>
   \<forall>e \<in> set pre. snd e = AdvanceTimeout False \<Longrightarrow> \<not> loopWhenFinished s \<Longrightarrow>
     sameRound (s\<lparr>mode := Finished,
        results := Some \<lparr>statTotal = shown s, statGot = got s, statPass = pass s,
          detailsReason = ''Reached the end of the list'', detailsTotal = length (deck s),
          detailsRemaining = length (deck s) - shown s\<rparr>\<rparr>) (drain s)
     \<and> timeouts (drain s) = []"
proof (induction pre arbitrary: s)
  case Nil
  let ?s1 = "runCallback (AdvanceTimeout True) t (s\<lparr>timeouts := []\<rparr>)"
  have "drain s = drain ?s1" using Nil.prems(1) by (simp add: drain_Cons)
  moreover have "drain ?s1 = runCallback (EndRoundTimeout ''Reached the end of the list'') 0
      (?s1\<lparr>timeouts := []\<rparr>)"
    by (rule drain_EndRound_only)
       (simp_all add: runCallback_atEnd_eq Nil.prems(3) endRound_eq)
  ultimately show ?case
    by (simp add: runCallback_atEnd_eq Nil.prems(3) endRound_eq runCallback_EndRound_eq
        sameRound_def)
next
  case (Cons e pre)
  let ?s1 = "runCallback (snd e) (fst e) (s\<lparr>timeouts := pre @ [(t, AdvanceTimeout True)]\<rparr>)"
  have e: "snd e = AdvanceTimeout False" using Cons.prems(2) by simp
  have step: "drain s = drain ?s1" using Cons.prems(1) by (simp add: drain_Cons)
  have q1: "timeouts ?s1 = pre @ [(t, AdvanceTimeout True)]" and l1: "\<not> loopWhenFinished ?s1"
    using Cons.prems(3) by (simp_all add: e runCallback_render_eq)
  have p1: "\<forall>x \<in> set pre. snd x = AdvanceTimeout False" using Cons.prems(2) by simp
  have "sameRound (?s1\<lparr>mode := Finished,
        results := Some \<lparr>statTotal = shown ?s1, statGot = got ?s1, statPass = pass ?s1,
          detailsReason = ''Reached the end of the list'', detailsTotal = length (deck ?s1),
          detailsRemaining = length (deck ?s1) - shown ?s1\<rparr>\<rparr>) (drain ?s1)
     \<and> timeouts (drain ?s1) = []"
    by (rule Cons.IH [OF q1 p1 l1])
  with step show ?case
    by (simp add: e runCallback_render_eq sameRound_def)
qed

subsection \<open>The tilt recognizer's time stamp\<close>

lemma tiltRun_append:
  "tiltRun (xs @ ys) s =
     (case tiltRun xs s of (a1, s1) \<Rightarrow> (case tiltRun ys s1 of (a2, s2) \<Rightarrow> (a1 @ a2, s2)))"
  by (induction xs arbitrary: s) (auto split: prod.splits)

lemma onDeviceOrientation_silent_keeps_stamp:
  "onDeviceOrientation e now s = (s', None) \<Longrightarrow> tiltLastActionAt s' = tiltLastActionAt s"
  by (auto simp: onDeviceOrientation_def calibrateBaseline_def setTiltStatus_def Let_def
      split: if_splits option.splits)

lemma tiltRun_silent_keeps_stamp:
  "tiltRun es s = (acts, s') \<Longrightarrow> set acts \<subseteq> {None} \<Longrightarrow>
     tiltLastActionAt s' = tiltLastActionAt s"
proof (induction es arbitrary: s acts)
  case Nil
  then show ?case by simp
next
  case (Cons e es)
  obtain s1 a where step: "onDeviceOrientation (fst e) (snd e) s = (s1, a)"
    by (cases "onDeviceOrientation (fst e) (snd e) s")
  obtain as s2 where rest: "tiltRun es s1 = (as, s2)"
    by (cases "tiltRun es s1")
  from Cons.prems step rest have eq: "acts = a # as" "s' = s2" by auto
  with Cons.prems have "a = None" "set as \<subseteq> {None}" by auto
  with step rest Cons.IH [of s1 as] eq show ?case
    by (simp add: onDeviceOrientation_silent_keeps_stamp)
qed

lemma onDeviceOrientation_fire_stamp:
  "onDeviceOrientation e now s = (s', Some a) \<Longrightarrow> tiltLastActionAt s' = now"
  by (auto simp: onDeviceOrientation_def calibrateBaseline_def setTiltStatus_def Let_def
      split: if_splits option.splits)

lemma onDeviceOrientation_debounced:
  "tiltArmed s \<Longrightarrow> now - tiltLastActionAt s < 700 \<Longrightarrow>
     snd (onDeviceOrientation e now s) = None \<and> tiltArmed (fst (onDeviceOrientation e now s))"
  by (auto simp: onDeviceOrientation_def calibrateBaseline_def setTiltStatus_def Let_def
      minIntervalMs_def split: if_splits option.splits)

subsection \<open>Rounding to a double\<close>

lemmas double_defs = dsub_def roundDouble_def expo_def pow2_def roundEven_def bitLength.simps

lemma bitLength_le: "m < 2 ^ k \<Longrightarrow> bitLength m \<le> k"
proof (induction k arbitrary: m)
  case 0
  then show ?case by (simp add: bitLength.simps)
next
  case (Suc k)
  then have "m div 2 < 2 ^ k" by simp
  then have "bitLength (m div 2) \<le> k" by (rule Suc.IH)
  then show ?case by (subst bitLength.simps) simp
qed

lemma bitLength_pos: "m \<noteq> 0 \<Longrightarrow> 1 \<le> bitLength m"
  by (subst bitLength.simps) simp

lemma bitLength_bounds:
  "m \<noteq> 0 \<Longrightarrow> 2 ^ (bitLength m - 1) \<le> m \<and> m < 2 ^ bitLength m"
proof (induction m rule: bitLength.induct)
  case (1 n)
  show ?case
  proof (cases "n div 2 = 0")
    case True
    with "1.prems" have "n = 1" by (simp add: div_eq_0_iff)
    then show ?thesis by (simp add: bitLength.simps)
  next
    case False
    define b where "b = bitLength (n div 2)"
    have ih: "2 ^ (b - 1) \<le> n div 2" "n div 2 < 2 ^ b"
      using "1.IH" [OF "1.prems" False] by (simp_all add: b_def)
    have b1: "1 \<le> b" using False unfolding b_def by (subst bitLength.simps) simp
    have bl: "bitLength n = Suc b"
      using "1.prems" unfolding b_def by (subst bitLength.simps) simp
    have "2 ^ b = 2 * 2 ^ (b - 1)" using b1 by (cases b) simp_all
    also have "\<dots> \<le> 2 * (n div 2)" using ih(1) by simp
    also have "\<dots> \<le> n" by simp
    finally have lo: "(2::nat) ^ b \<le> n" .
    have "n < 2 * (n div 2) + 2" by presburger
    also have "\<dots> \<le> 2 * 2 ^ b" using ih(2) by simp
    finally have hi: "n < 2 ^ Suc b" by simp
    show ?thesis using lo hi by (simp add: bl)
  qed
qed

lemma bitLength_bounds_real:
  assumes "m \<noteq> 0"
  shows "(2::real) ^ (bitLength m - 1) \<le> real m" "real m + 1 \<le> 2 ^ bitLength m"
proof -
  from bitLength_bounds [OF assms]
  have a: "2 ^ (bitLength m - 1) \<le> m" and b: "Suc m \<le> 2 ^ bitLength m" by simp_all
  from a have "real (2 ^ (bitLength m - 1)) \<le> real m" by (rule iffD2 [OF of_nat_le_iff])
  then show "(2::real) ^ (bitLength m - 1) \<le> real m" by simp
  from b have "real (Suc m) \<le> real (2 ^ bitLength m)" by (rule iffD2 [OF of_nat_le_iff])
  then show "real m + 1 \<le> 2 ^ bitLength m" by simp
qed

text \<open>\<open>expo\<close> is the binary exponent.\<close>

lemma expo_ge1:
  assumes "1 \<le> a"
  shows "pow2 (expo a) \<le> a \<and> a < pow2 (expo a + 1)"
proof -
  define m where "m = nat \<lfloor>a\<rfloor>"
  have fl: "1 \<le> \<lfloor>a\<rfloor>" using assms by linarith
  then have m0: "m \<noteq> 0" by (simp add: m_def)
  have rm: "real m = of_int \<lfloor>a\<rfloor>" using fl by (simp add: m_def)
  have ma: "real m \<le> a" "a < real m + 1"
    unfolding rm by linarith+
  have b1: "1 \<le> bitLength m" using m0 by (rule bitLength_pos)
  have e: "expo a = int (bitLength m) - 1" using assms by (simp add: expo_def m_def)
  have n0: "nat (int (bitLength m) - 1) = bitLength m - 1" by simp
  have p0: "pow2 (expo a) = 2 ^ (bitLength m - 1)"
    using b1 unfolding e pow2_def n0 by simp
  have p1: "pow2 (expo a + 1) = 2 ^ bitLength m"
    unfolding e pow2_def by simp
  show ?thesis
    unfolding p0 p1 using bitLength_bounds_real [OF m0] ma by linarith
qed

lemma expo_lt1:
  assumes "0 < a" "a < 1"
  shows "pow2 (expo a) \<le> a \<and> a < pow2 (expo a + 1)"
proof -
  define c where "c = \<lceil>1 / a\<rceil>"
  define m where "m = nat (c - 1)"
  define j where "j = bitLength m"
  have inv: "1 < 1 / a" using assms by simp
  have cc: "of_int c - 1 < 1 / a" "1 / a \<le> of_int c"
    unfolding c_def using ceiling_correct [of "1 / a"] by simp_all
  have c2: "2 \<le> c" using inv cc(2) by linarith
  then have m0: "m \<noteq> 0" by (simp add: m_def)
  have rm: "real m = of_int c - 1" using c2 by (simp add: m_def)
  have mm: "nat \<lceil>1 / a\<rceil> - Suc 0 = m"
    unfolding m_def c_def by (simp add: nat_diff_distrib')
  have j1: "1 \<le> j" unfolding j_def using m0 by (rule bitLength_pos)
  have e: "expo a = - int j" using assms(2) by (simp add: expo_def mm j_def)
  have p0: "pow2 (expo a) = 1 / 2 ^ j"
    using j1 unfolding e pow2_def by simp
  have p1: "pow2 (expo a + 1) = 1 / 2 ^ (j - 1)"
  proof (cases "j = 1")
    case True
    then show ?thesis unfolding e pow2_def by simp
  next
    case False
    with j1 have "2 \<le> j" by simp
    then have "nat (- (- int j + 1)) = j - 1" "\<not> 0 \<le> - int j + 1" by simp_all
    then show ?thesis unfolding e pow2_def by simp
  qed
  note b = bitLength_bounds_real [OF m0, folded j_def]
  have u: "1 / a \<le> 2 ^ j" using cc(2) b(2) rm by linarith
  have l: "2 ^ (j - 1) < 1 / a" using cc(1) b(1) rm by linarith
  have pj: "(0::real) < 2 ^ j" "(0::real) < 2 ^ (j - 1)" by simp_all
  from u have "1 \<le> 2 ^ j * a" using assms(1) by (simp add: pos_divide_le_eq)
  then have lo: "1 / 2 ^ j \<le> a" using pj(1) by (simp add: pos_divide_le_eq mult.commute)
  from l have "2 ^ (j - 1) * a < 1" using assms(1) by (simp add: pos_less_divide_eq)
  then have hi: "a < 1 / 2 ^ (j - 1)" using pj(2) by (simp add: pos_less_divide_eq mult.commute)
  show ?thesis unfolding p0 p1 using lo hi by simp
qed

lemma expo_bounds:
  "0 < a \<Longrightarrow> pow2 (expo a) \<le> a \<and> a < pow2 (expo a + 1)"
  using expo_ge1 [of a] expo_lt1 [of a] by (cases "1 \<le> a") simp_all

text \<open>\<open>roundDouble\<close> returns a multiple of the spacing, at most half a spacing away.\<close>

lemma roundEven_near: "\<bar>of_int (roundEven q) - q\<bar> \<le> 1 / 2"
  unfolding roundEven_def Let_def by (auto; linarith)

lemma roundEven_of_int: "roundEven (of_int n) = n"
  by (simp add: roundEven_def)

lemma pow2_pos: "0 < pow2 k"
  by (simp add: pow2_def)

lemma roundDouble_nearest:
  assumes "r \<noteq> 0"
  shows "\<bar>roundDouble r - r\<bar> \<le> pow2 (max (expo \<bar>r\<bar> - 52) (- 1074)) / 2"
proof -
  define k where "k = max (expo \<bar>r\<bar> - 52) (- 1074)"
  define n where "n = roundEven (r / pow2 k)"
  have p: "0 < pow2 k" by (rule pow2_pos)
  have "\<bar>of_int n - r / pow2 k\<bar> \<le> 1 / 2"
    unfolding n_def by (rule roundEven_near)
  then have "\<bar>of_int n - r / pow2 k\<bar> * pow2 k \<le> 1 / 2 * pow2 k"
    using p by (rule mult_right_mono [OF _ less_imp_le])
  moreover have "(of_int n - r / pow2 k) * pow2 k = of_int n * pow2 k - r"
    using p by (simp add: left_diff_distrib)
  moreover have "\<bar>of_int n - r / pow2 k\<bar> * pow2 k = \<bar>(of_int n - r / pow2 k) * pow2 k\<bar>"
    using p by (simp add: abs_mult)
  ultimately have "\<bar>of_int n * pow2 k - r\<bar> \<le> pow2 k / 2" by simp
  moreover have "roundDouble r = of_int n * pow2 k"
    using assms by (simp add: roundDouble_def Let_def k_def n_def)
  ultimately show ?thesis unfolding k_def by simp
qed

text \<open>Whole numbers below \<open>2 ^ 53\<close> are doubles, and their differences are exact.\<close>

lemma roundDouble_of_int:
  assumes "\<bar>n\<bar> < 2 ^ 53"
  shows "roundDouble (of_int n) = of_int n"
proof (cases "n = 0")
  case True
  then show ?thesis by (simp add: roundDouble_def)
next
  case False
  define m where "m = nat \<bar>n\<bar>"
  have m: "m < 2 ^ 53" "m \<noteq> 0"
    using assms False by (simp_all add: m_def nat_less_iff)
  have one: "1 \<le> \<bar>real_of_int n\<bar>" using False by (simp flip: of_int_abs)
  have fl: "nat \<lfloor>\<bar>real_of_int n\<bar>\<rfloor> = m"
    by (simp add: m_def flip: of_int_abs)
  have up: "bitLength m \<le> 53" using m(1) by (rule bitLength_le)
  have low: "1 \<le> bitLength m" using m(2) by (rule bitLength_pos)
  define j where "j = 53 - bitLength m"
  have e: "expo \<bar>real_of_int n\<bar> - 52 = - int j"
    using up low by (simp add: expo_def one fl j_def)
  have k: "max (expo \<bar>real_of_int n\<bar> - 52) (- 1074) = - int j"
    using e up by (simp add: j_def)
  have p: "pow2 (- int j) = 1 / 2 ^ j"
    by (cases "j = 0") (simp_all add: pow2_def)
  have q: "real_of_int n / pow2 (- int j) = of_int (n * 2 ^ j)"
    by (simp add: p)
  show ?thesis
    using False
    by (simp add: roundDouble_def Let_def k q roundEven_of_int del: of_int_mult) (simp add: p)
qed

lemma dsub_of_int:
  assumes "\<bar>a\<bar> < 2 ^ 52" "\<bar>b\<bar> < 2 ^ 52"
  shows "dsub (of_int a) (of_int b) = of_int a - of_int b"
proof -
  have "\<bar>a\<bar> < 2 ^ 53" "\<bar>b\<bar> < 2 ^ 53" "\<bar>a - b\<bar> < 2 ^ 53"
    using assms by simp_all
  then have "roundDouble (of_int a) = of_int a" "roundDouble (of_int b) = of_int b"
      "roundDouble (of_int (a - b)) = of_int (a - b)"
    by (simp_all only: roundDouble_of_int)
  then show ?thesis by (simp add: dsub_def)
qed

text \<open>
  Differences that round onto a threshold. The doubles nearest to 42.3, 0.3, 80.2 and
  0.2 are written out; their exact differences lie just below 42 and just above 80.
\<close>

lemma dsub_examples:
  "dsub (2976597878715187 / 2 ^ 46) (5404319552844595 / 2 ^ 54) = 42"
  "2976597878715187 / 2 ^ 46 - 5404319552844595 / 2 ^ 54 < (42::real)"
  "dsub (5643573283048653 / 2 ^ 46) (3602879701896397 / 2 ^ 54) = 80"
  "(80::real) < 5643573283048653 / 2 ^ 46 - 3602879701896397 / 2 ^ 54"
  "dsub 42 (1 / 2 ^ 60) = 42"
  "dsub (423 / 10) (3 / 10) = 42"
  "dsub (2 ^ 53 + 2) 1 = 2 ^ 53"
  "dsub (1 / 2) (1 / 4) = 1 / 4"
  by (simp_all add: double_defs Let_def)

subsection \<open>Round start and timer\<close>

lemma startRound_fields:
  assumes "phrases \<noteq> []"
  shows "fst (startRound rnd now phrases s) = None"
    "mode (snd (startRound rnd now phrases s)) = Running"
    "index (snd (startRound rnd now phrases s)) = 0"
    "shown (snd (startRound rnd now phrases s)) = 0"
    "got (snd (startRound rnd now phrases s)) = 0"
    "pass (snd (startRound rnd now phrases s)) = 0"
    "tiltLastActionAt (snd (startRound rnd now phrases s)) = 0"
    "tiltArmed (snd (startRound rnd now phrases s))"
    "\<not> tiltHasBaseline (snd (startRound rnd now phrases s))"
    "timerId (snd (startRound rnd now phrases s)) = Some now"
    "timeLeft (snd (startRound rnd now phrases s)) = timerSeconds s"
  using assms
  by (simp_all add: startRound_def Let_def ui_defs listener_defs)

lemma fold_timerTick_stopped:
  "timerId s = None \<Longrightarrow> fold timerTick later s = s"
  by (induction later) (simp_all add: timerTick_def)

section \<open>The claims\<close>

subsection \<open>C1: ending a round\<close>

text \<open>
  The claim that \<open>endRound\<close> does nothing outside \<open>Running\<close> does not hold for the
  code: \<open>endRound\<close> never reads \<open>State.mode\<close>. Called on the untouched setup state
  it schedules the switch to the results screen, and 250 ms later the mode is
  \<open>Finished\<close>. Called on a finished round whose results say \<open>Ended early\<close> it
  replaces that reason by its own. The program makes such a call by itself: when the
  End button is pressed right after the last card, the round is \<open>Finished\<close> with
  \<open>Ended early\<close> at 550 ms, the feedback timeout of the last \<open>advance\<close> fires at
  620 ms and calls \<open>endRound\<close>, and the results end up saying
  \<open>Reached the end of the list\<close>.
\<close>

theorem endRound_outside_running_counterexample:
  "mode State0 = Setup
   \<and> mode (drain (endRound ''Ended early'' 0 State0)) = Finished
   \<and> mode finishedEarly = Finished
   \<and> map_option detailsReason (results finishedEarly) = Some ''Ended early''
   \<and> map_option detailsReason (results (drain (endRound ''Time is up'' 6000 finishedEarly)))
        = Some ''Time is up''
   \<and> mode (runDue 600 endedWhileClosing) = Finished
   \<and> map_option detailsReason (results (runDue 600 endedWhileClosing)) = Some ''Ended early''
   \<and> timeouts (runDue 600 endedWhileClosing) = [(620, AdvanceTimeout True)]
   \<and> map_option detailsReason (results (drain endedWhileClosing))
        = Some ''Reached the end of the list''"
proof -
  have a: "drain (endRound ''Ended early'' 0 State0)
      = runCallback (EndRoundTimeout ''Ended early'') 0
          ((endRound ''Ended early'' 0 State0)\<lparr>timeouts := []\<rparr>)"
    by (rule drain_EndRound_only) (simp_all add: endRound_eq State0_def)
  have b: "finishedEarly
      = runCallback (EndRoundTimeout ''Ended early'') 0
          ((endRound ''Ended early'' 5000 round3)\<lparr>timeouts := []\<rparr>)"
    unfolding finishedEarly_def
    by (rule drain_EndRound_only) (simp_all add: endRound_eq round3_eq State0_def)
  have q: "timeouts finishedEarly = []"
    by (simp add: b runCallback_EndRound_eq)
  have c: "drain (endRound ''Time is up'' 6000 finishedEarly)
      = runCallback (EndRoundTimeout ''Time is up'') 0
          ((endRound ''Time is up'' 6000 finishedEarly)\<lparr>timeouts := []\<rparr>)"
    by (rule drain_EndRound_only) (simp_all add: endRound_eq q)
  have direct: "mode State0 = Setup
      \<and> mode (drain (endRound ''Ended early'' 0 State0)) = Finished
      \<and> mode finishedEarly = Finished
      \<and> map_option detailsReason (results finishedEarly) = Some ''Ended early''
      \<and> map_option detailsReason (results (drain (endRound ''Time is up'' 6000 finishedEarly)))
           = Some ''Time is up''"
    unfolding a c by (simp add: b endRound_eq runCallback_EndRound_eq State0_def)
  have trace: "mode (runDue 600 endedWhileClosing) = Finished
      \<and> map_option detailsReason (results (runDue 600 endedWhileClosing)) = Some ''Ended early''
      \<and> timeouts (runDue 600 endedWhileClosing) = [(620, AdvanceTimeout True)]
      \<and> map_option detailsReason (results (drain endedWhileClosing))
           = Some ''Reached the end of the list''"
    by (simp add: endedWhileClosing_def threeGots_eq round3_eq State0_def deck3_def endRound_eq
        runDue.simps drain.simps runCallback_EndRound_eq runCallback_render_eq
        runCallback_atEnd_eq)
  from direct trace show ?thesis by blast
qed

text \<open>
  C1, as amended. \<open>endRound(reason)\<close> is not guarded by the mode. In every mode the
  call itself leaves mode, deck, index, counters and results as they are, clears the
  timer, detaches the tilt listener and schedules the 250 ms timeout. When nothing else
  is pending, that timeout leaves the round \<open>Finished\<close> with the results frozen from
  the current counters and the given reason. A second \<open>endRound\<close> with the same reason,
  made before or after the timeout has fired, ends in that same state.
\<close>

theorem endRound_unguarded:
  "mode (endRound r now s) = mode s
   \<and> deck (endRound r now s) = deck s \<and> index (endRound r now s) = index s
   \<and> shown (endRound r now s) = shown s \<and> got (endRound r now s) = got s
   \<and> pass (endRound r now s) = pass s \<and> results (endRound r now s) = results s
   \<and> timerId (endRound r now s) = None \<and> \<not> tiltListenerAttached (endRound r now s)
   \<and> timeouts (endRound r now s) = insertTimeout (now + 250, EndRoundTimeout r) (timeouts s)
   \<and> (timeouts s = [] \<longrightarrow>
        (let fin = drain (endRound r now s)
         in mode fin = Finished
            \<and> results fin = Some \<lparr>statTotal = shown s, statGot = got s, statPass = pass s,
                 detailsReason = r, detailsTotal = length (deck s),
                 detailsRemaining = length (deck s) - shown s\<rparr>
            \<and> deck fin = deck s \<and> index fin = index s
            \<and> shown fin = shown s \<and> got fin = got s \<and> pass fin = pass s
            \<and> drain (endRound r now' (endRound r now s)) = fin
            \<and> drain (endRound r now' fin) = fin))"
proof -
  have sync: "mode (endRound r now s) = mode s
   \<and> deck (endRound r now s) = deck s \<and> index (endRound r now s) = index s
   \<and> shown (endRound r now s) = shown s \<and> got (endRound r now s) = got s
   \<and> pass (endRound r now s) = pass s \<and> results (endRound r now s) = results s
   \<and> timerId (endRound r now s) = None \<and> \<not> tiltListenerAttached (endRound r now s)
   \<and> timeouts (endRound r now s) = insertTimeout (now + 250, EndRoundTimeout r) (timeouts s)"
    by (simp add: endRound_eq)
  have later: "let fin = drain (endRound r now s)
         in mode fin = Finished
            \<and> results fin = Some \<lparr>statTotal = shown s, statGot = got s, statPass = pass s,
                 detailsReason = r, detailsTotal = length (deck s),
                 detailsRemaining = length (deck s) - shown s\<rparr>
            \<and> deck fin = deck s \<and> index fin = index s
            \<and> shown fin = shown s \<and> got fin = got s \<and> pass fin = pass s
            \<and> drain (endRound r now' (endRound r now s)) = fin
            \<and> drain (endRound r now' fin) = fin" if q: "timeouts s = []"
  proof -
    define fin where "fin = drain (endRound r now s)"
    have "drain (endRound r now s)
        = runCallback (EndRoundTimeout r) 0 ((endRound r now s)\<lparr>timeouts := []\<rparr>)"
      by (rule drain_EndRound_only) (simp_all add: endRound_eq q)
    then have fin: "fin = s\<lparr>mode := Finished, timerId := None, tiltListenerAttached := False,
        feedbackEl := None, tiltStatus := NoText,
        results := Some \<lparr>statTotal = shown s, statGot = got s, statPass = pass s,
          detailsReason = r, detailsTotal = length (deck s),
          detailsRemaining = length (deck s) - shown s\<rparr>\<rparr>"
      unfolding fin_def by (simp add: endRound_eq runCallback_EndRound_eq q)
    have "drain (endRound r now' (endRound r now s))
        = runCallback (EndRoundTimeout r) 0
            ((endRound r now' (endRound r now s))\<lparr>timeouts := []\<rparr>)"
      by (rule drain_EndRound_only) (simp_all add: endRound_eq q)
    then have twice: "drain (endRound r now' (endRound r now s)) = fin"
      by (simp add: fin endRound_eq runCallback_EndRound_eq q)
    have "drain (endRound r now' fin)
        = runCallback (EndRoundTimeout r) 0 ((endRound r now' fin)\<lparr>timeouts := []\<rparr>)"
      by (rule drain_EndRound_only) (simp_all add: endRound_eq fin q)
    then have again: "drain (endRound r now' fin) = fin"
      by (simp add: fin endRound_eq runCallback_EndRound_eq q)
    have "mode fin = Finished
            \<and> results fin = Some \<lparr>statTotal = shown s, statGot = got s, statPass = pass s,
                 detailsReason = r, detailsTotal = length (deck s),
                 detailsRemaining = length (deck s) - shown s\<rparr>
            \<and> deck fin = deck s \<and> index fin = index s
            \<and> shown fin = shown s \<and> got fin = got s \<and> pass fin = pass s"
      by (simp add: fin)
    with twice again show ?thesis
      unfolding Let_def fin_def [symmetric] by simp
  qed
  from sync later show ?thesis by blast
qed

theorem endRound_unguarded_witness:
  "timeouts round3 = []
   \<and> mode (drain (endRound ''Ended early'' 5000 round3)) = Finished
   \<and> drain (endRound ''Ended early'' 5100 (endRound ''Ended early'' 5000 round3))
       = drain (endRound ''Ended early'' 5000 round3)
   \<and> drain (endRound ''Ended early'' 5100 (drain (endRound ''Ended early'' 5000 round3)))
       = drain (endRound ''Ended early'' 5000 round3)"
proof -
  have q: "timeouts round3 = []"
    by (simp add: round3_eq State0_def)
  show ?thesis
    using q endRound_unguarded [of "''Ended early''" 5000 round3 5100]
    by (simp add: Let_def)
qed

subsection \<open>C2: three cards, no loop\<close>

text \<open>
  The claim has the third \<open>advance\<close> call itself move the round to \<open>Finished\<close>. In the
  code the call only computes \<open>atEnd\<close> and hands the rest to a 420 ms timeout, which in
  turn calls \<open>endRound\<close> with its own 250 ms timeout: when the third call returns, index
  and \<open>shown\<close> are 3, the mode is still \<open>Running\<close> and no results exist.
\<close>

theorem advance_third_call_counterexample:
  "index threeGots = 3 \<and> shown threeGots = 3 \<and> mode threeGots = Running
   \<and> results threeGots = None"
  by (simp add: threeGots_eq round3_eq State0_def)

text \<open>
  C2, as amended. For a running round of exactly three cards at index 0, with looping
  off and no timeout pending, three \<open>advance(Got)\<close> calls at times \<open>t1 \<le> t2 \<le> t3\<close>
  (the timeouts due by each call having fired before it) move the index 0, 1, 2, 3 and
  \<open>shown\<close> up by 3. The third call computes \<open>atEnd\<close> at once and queues it as the last
  pending timeout; the round is still \<open>Running\<close> when the call returns. Once the
  pending timeouts have fired, with no further call of \<open>advance\<close>, the round is
  \<open>Finished\<close> with the reason \<open>Reached the end of the list\<close> and the three cards counted.
\<close>

theorem advance_three_cards:
  assumes run: "mode s = Running" and three: "length (deck s) = 3" and start: "index s = 0"
    and noloop: "\<not> loopWhenFinished s" and quiet: "timeouts s = []"
    and order: "t1 \<le> t2" "t2 \<le> t3"
  shows "let s1 = advance Got t1 s;
             s2 = advance Got t2 (runDue t2 s1);
             s3 = advance Got t3 (runDue t3 s2);
             fin = drain s3
         in index s1 = 1 \<and> index s2 = 2 \<and> index s3 = 3
            \<and> mode s1 = Running \<and> mode s2 = Running \<and> mode s3 = Running
            \<and> shown s3 = shown s + 3 \<and> results s3 = results s
            \<and> last (timeouts s3) = (t3 + 420, AdvanceTimeout True)
            \<and> mode fin = Finished \<and> index fin = 3 \<and> shown fin = shown s + 3
            \<and> results fin = Some \<lparr>statTotal = shown s + 3, statGot = got s + 3,
                 statPass = pass s, detailsReason = ''Reached the end of the list'',
                 detailsTotal = 3, detailsRemaining = 3 - (shown s + 3)\<rparr>
            \<and> timeouts fin = []"
proof -
  define s1 where "s1 = advance Got t1 s"
  define r2 where "r2 = runDue t2 s1"
  define s2 where "s2 = advance Got t2 r2"
  define r3 where "r3 = runDue t3 s2"
  define s3 where "s3 = advance Got t3 r3"
  have s1: "s1 = s\<lparr>shown := shown s + 1, got := got s + 1, pass := pass s,
        feedbackEl := Some (''got'', ''Got it!''), index := 1,
        timeouts := [(t1 + 420, AdvanceTimeout False)]\<rparr>"
    unfolding s1_def using run three start quiet by (simp add: advance_eq)
  have r2: "sameRound s1 r2"
      "\<forall>e \<in> set (timeouts r2). snd e = AdvanceTimeout False \<and> fst e \<le> t1 + 420"
    unfolding r2_def using runDue_render_only [of s1 "t1 + 420" t2] by (simp_all add: s1)
  have f2: "mode r2 = Running" "deck r2 = deck s" "index r2 = 1" "shown r2 = shown s + 1"
      "got r2 = got s + 1" "pass r2 = pass s" "results r2 = results s" "\<not> loopWhenFinished r2"
    using r2(1) run noloop by (simp_all add: sameRound_def s1)
  have s2: "s2 = r2\<lparr>shown := shown s + 2, got := got s + 2, pass := pass s,
        feedbackEl := Some (''got'', ''Got it!''), index := 2,
        timeouts := insertTimeout (t2 + 420, AdvanceTimeout False) (timeouts r2)\<rparr>"
    unfolding s2_def using f2 three by (simp add: advance_eq)
  have p2: "\<forall>e \<in> set (timeouts s2). snd e = AdvanceTimeout False \<and> fst e \<le> t2 + 420"
    using r2(2) order(1) by (auto simp: s2 set_insertTimeout)
  have r3: "sameRound s2 r3"
      "\<forall>e \<in> set (timeouts r3). snd e = AdvanceTimeout False \<and> fst e \<le> t2 + 420"
    unfolding r3_def using runDue_render_only [of s2 "t2 + 420" t3] p2 by simp_all
  have f3: "mode r3 = Running" "deck r3 = deck s" "index r3 = 2" "shown r3 = shown s + 2"
      "got r3 = got s + 2" "pass r3 = pass s" "results r3 = results s" "\<not> loopWhenFinished r3"
    using r3(1) f2 by (simp_all add: sameRound_def s2)
  have q3: "insertTimeout (t3 + 420, AdvanceTimeout True) (timeouts r3)
      = timeouts r3 @ [(t3 + 420, AdvanceTimeout True)]"
    using r3(2) order(2) by (intro insertTimeout_last) auto
  have s3: "s3 = r3\<lparr>shown := shown s + 3, got := got s + 3, pass := pass s,
        feedbackEl := Some (''got'', ''Got it!''), index := 3,
        timeouts := timeouts r3 @ [(t3 + 420, AdvanceTimeout True)]\<rparr>"
    unfolding s3_def using f3 three by (simp add: advance_eq q3)
  have fin: "sameRound (s3\<lparr>mode := Finished,
        results := Some \<lparr>statTotal = shown s3, statGot = got s3, statPass = pass s3,
          detailsReason = ''Reached the end of the list'', detailsTotal = length (deck s3),
          detailsRemaining = length (deck s3) - shown s3\<rparr>\<rparr>) (drain s3)
     \<and> timeouts (drain s3) = []"
    using drain_reached_end [of s3 "timeouts r3" "t3 + 420"] r3(2) f3
    by (simp add: s3)
  have "index s1 = 1 \<and> index s2 = 2 \<and> index s3 = 3
            \<and> mode s1 = Running \<and> mode s2 = Running \<and> mode s3 = Running
            \<and> shown s3 = shown s + 3 \<and> results s3 = results s
            \<and> last (timeouts s3) = (t3 + 420, AdvanceTimeout True)"
    using run f2 f3 by (simp add: s1 s2 s3)
  moreover have "mode (drain s3) = Finished \<and> index (drain s3) = 3
            \<and> shown (drain s3) = shown s + 3
            \<and> results (drain s3) = Some \<lparr>statTotal = shown s + 3, statGot = got s + 3,
                 statPass = pass s, detailsReason = ''Reached the end of the list'',
                 detailsTotal = 3, detailsRemaining = 3 - (shown s + 3)\<rparr>
            \<and> timeouts (drain s3) = []"
    using fin f3 three by (simp add: sameRound_def s3)
  ultimately show ?thesis
    unfolding Let_def s1_def [symmetric] r2_def [symmetric] s2_def [symmetric]
      r3_def [symmetric] s3_def [symmetric]
    by simp
qed

theorem advance_three_cards_witness:
  "mode round3 = Running \<and> length (deck round3) = 3 \<and> index round3 = 0
   \<and> \<not> loopWhenFinished round3 \<and> timeouts round3 = []
   \<and> mode (advance Got 1000 (runDue 1000 (advance Got 500 (runDue 500 (advance Got 0 round3)))))
       = Running
   \<and> mode (drain (advance Got 1000 (runDue 1000 (advance Got 500
        (runDue 500 (advance Got 0 round3)))))) = Finished
   \<and> results (drain (advance Got 1000 (runDue 1000 (advance Got 500
        (runDue 500 (advance Got 0 round3))))))
       = Some \<lparr>statTotal = 3, statGot = 3, statPass = 0,
           detailsReason = ''Reached the end of the list'', detailsTotal = 3,
           detailsRemaining = 0\<rparr>"
proof -
  have h: "mode round3 = Running" "length (deck round3) = 3" "index round3 = 0"
      "\<not> loopWhenFinished round3" "timeouts round3 = []"
    by (simp_all add: round3_eq State0_def deck3_def)
  have z: "shown round3 = 0" "got round3 = 0" "pass round3 = 0"
    by (simp_all add: round3_eq State0_def)
  have o: "(0::int) \<le> 500" "(500::int) \<le> 1000" by simp_all
  show ?thesis
    using h advance_three_cards [OF h o] by (simp add: Let_def z)
qed

subsection \<open>C3: the first tilt excursion\<close>

text \<open>
  The claim has the recognizer stay silent on the first excursion and fire once, after
  the return to neutral. The code starts every round armed, so the sample 25 degrees
  over the baseline fires \<open>Got\<close> at once. With the four samples a second apart the
  sample 20 degrees over fires a second \<open>Got\<close>; with the samples 300 ms apart it is
  debounced, and the only \<open>Got\<close> is the one of the first excursion.
\<close>

theorem tilt_first_excursion_counterexample:
  "fst (tiltRun [(Some 40, 1000), (Some 65, 2000), (Some 40, 3000), (Some 60, 4000)] tiltFresh)
     = [None, Some Got, None, Some Got]
   \<and> fst (tiltRun [(Some 40, 1000), (Some 65, 1300), (Some 40, 1600), (Some 60, 1900)] tiltFresh)
     = [None, Some Got, None, None]"
  by (simp add: tiltFresh_def State0_def onRoundStartResetTiltState_def tilt_defs Let_def)

text \<open>
  C3, as amended. At the start of a round (tilt on, recognizer reset), with the clock at
  or past 700 ms when the second sample arrives, the samples baseline, baseline + 25,
  baseline, baseline + 20 emit: nothing for the sample that sets the baseline, \<open>Got\<close>
  for the first excursion, nothing for the return to neutral (it re-arms), and for the
  second excursion \<open>Got\<close> again unless it comes less than 700 ms after the first
  \<open>Got\<close>.
\<close>

theorem tilt_first_excursion_fires:
  assumes "shouldListenTilt s" "tiltArmed s" "\<not> tiltHasBaseline s" "tiltLastActionAt s = 0"
    and "700 \<le> t2"
  shows "fst (tiltRun [(Some b, t1), (Some (b + 25), t2), (Some b, t3), (Some (b + 20), t4)] s)
     = [None, Some Got, None, if t4 - t2 < 700 then None else Some Got]"
  using assms
  by (simp add: tilt_defs Let_def)

theorem tilt_first_excursion_fires_witness:
  "shouldListenTilt tiltFresh \<and> tiltArmed tiltFresh \<and> \<not> tiltHasBaseline tiltFresh
   \<and> tiltLastActionAt tiltFresh = 0
   \<and> fst (tiltRun [(Some 40, 1000), (Some (40 + 25), 2000), (Some 40, 2300),
        (Some (40 + 20), 2600)] tiltFresh) = [None, Some Got, None, None]"
  using tilt_first_excursion_fires [of tiltFresh 2000 40 1000 2300 2600]
  by (simp add: tiltFresh_def State0_def onRoundStartResetTiltState_def shouldListenTilt_def)

subsection \<open>C4: a second swipe start\<close>

text \<open>
  The claim has a second \<open>onStart\<close> ignored while a gesture is active. \<open>swipeStart\<close>
  never reads \<open>Swipe.active\<close>: after a start at (0, 0) the gesture is active, and a
  second start at (100, 50) half a second later replaces the recorded point and time.
\<close>

theorem swipeStart_overwrites_counterexample:
  "active (swipeStart 0 0 0 running1 Swipe0)
   \<and> startX (swipeStart 0 0 0 running1 Swipe0) = 0
   \<and> startT (swipeStart 0 0 0 running1 Swipe0) = 0
   \<and> startX (swipeStart 100 50 500 running1 (swipeStart 0 0 0 running1 Swipe0)) = 100
   \<and> startY (swipeStart 100 50 500 running1 (swipeStart 0 0 0 running1 Swipe0)) = 50
   \<and> startT (swipeStart 100 50 500 running1 (swipeStart 0 0 0 running1 Swipe0)) = 500"
  by (simp add: swipeStart_def running1_def)

text \<open>
  C4, as amended. While the round is \<open>Running\<close>, a second \<open>swipeStart\<close> before the
  matching \<open>swipeEnd\<close> is not ignored: it replaces the recorded start coordinates and
  start time by its own, as if the first start had not happened.
\<close>

theorem swipeStart_last_wins:
  assumes "mode s = Running" and "mode s' = Running"
  shows "active (swipeStart x1 y1 t1 s sw)
     \<and> swipeStart x2 y2 t2 s' (swipeStart x1 y1 t1 s sw) = swipeStart x2 y2 t2 s' sw
     \<and> active (swipeStart x2 y2 t2 s' (swipeStart x1 y1 t1 s sw))
     \<and> startX (swipeStart x2 y2 t2 s' (swipeStart x1 y1 t1 s sw)) = x2
     \<and> startY (swipeStart x2 y2 t2 s' (swipeStart x1 y1 t1 s sw)) = y2
     \<and> startT (swipeStart x2 y2 t2 s' (swipeStart x1 y1 t1 s sw)) = t2"
  using assms by (simp add: swipeStart_def)

theorem swipeStart_last_wins_witness:
  "mode running1 = Running
   \<and> swipeStart 100 50 500 running1 (swipeStart 0 0 0 running1 Swipe0)
       = swipeStart 100 50 500 running1 Swipe0
   \<and> startX (swipeStart 100 50 500 running1 (swipeStart 0 0 0 running1 Swipe0)) = 100"
proof -
  have h: "mode running1 = Running" by (simp add: running1_def)
  show ?thesis
    using h swipeStart_last_wins [OF h h, of 0 0 0 Swipe0 100 50 500] by blast
qed

subsection \<open>C5: classifying a swipe\<close>

text \<open>
  C5. For a swipe started at \<open>(x0, y0)\<close> at time \<open>t0\<close> and ended at \<open>(x1, y1)\<close> at
  time \<open>t1\<close>, the round \<open>Running\<close> at both moments, let \<open>dx = x1 - x0\<close> and
  \<open>dy = y1 - y0\<close> be the differences as the program computes them, by subtraction of
  JavaScript numbers (\<open>dsub\<close>), and \<open>dt = t1 - t0\<close>. Then \<open>swipeEnd\<close> emits no action
  when \<open>dt > 800\<close>, or \<open>\<bar>dx\<bar> < 42\<close>, or \<open>\<bar>dy\<bar> > 80\<close>; otherwise it emits \<open>Got\<close>
  when \<open>dx > 0\<close> and \<open>Pass\<close> when \<open>dx < 0\<close> (and \<open>Pass\<close> is emitted only when
  \<open>dx\<close> is negative). For coordinates that are whole numbers of pixels the computed
  differences are the exact ones, and the same holds with \<open>dx\<close> and \<open>dy\<close> read as
  integers.
\<close>

theorem swipe_classification:
  assumes "mode s = Running" and "mode s' = Running"
  shows "snd (swipeEnd x1 y1 t1 s' (swipeStart x0 y0 t0 s sw)) =
     (if t1 - t0 > 800 \<or> \<bar>dsub x1 x0\<bar> < 42 \<or> \<bar>dsub y1 y0\<bar> > 80 then None
      else if dsub x1 x0 > 0 then Some Got else Some Pass)
     \<and> (snd (swipeEnd x1 y1 t1 s' (swipeStart x0 y0 t0 s sw)) = Some Pass
          \<longrightarrow> dsub x1 x0 < 0)
     \<and> (\<bar>i1\<bar> < 2 ^ 52 \<and> \<bar>i0\<bar> < 2 ^ 52 \<and> \<bar>j1\<bar> < 2 ^ 52 \<and> \<bar>j0\<bar> < 2 ^ 52 \<longrightarrow>
          snd (swipeEnd (of_int i1) (of_int j1) t1 s'
                 (swipeStart (of_int i0) (of_int j0) t0 s sw)) =
            (if t1 - t0 > 800 \<or> \<bar>i1 - i0\<bar> < 42 \<or> \<bar>j1 - j0\<bar> > 80 then None
             else if i1 - i0 > 0 then Some Got else Some Pass))"
proof -
  have gen: "snd (swipeEnd x y t1 s' (swipeStart x' y' t0 s sw)) =
     (if t1 - t0 > 800 \<or> \<bar>dsub x x'\<bar> < 42 \<or> \<bar>dsub y y'\<bar> > 80 then None
      else if dsub x x' > 0 then Some Got else Some Pass)" for x y x' y'
    using assms
    by (auto simp: swipeEnd_def swipeStart_def Let_def SWIPE_MAX_MS_def SWIPE_THRESHOLD_PX_def
        SWIPE_MAX_OFF_AXIS_def)
  have pass: "snd (swipeEnd x1 y1 t1 s' (swipeStart x0 y0 t0 s sw)) = Some Pass
      \<longrightarrow> dsub x1 x0 < 0"
    unfolding gen by (auto split: if_splits)
  have whole: "snd (swipeEnd (of_int i1) (of_int j1) t1 s'
                 (swipeStart (of_int i0) (of_int j0) t0 s sw)) =
            (if t1 - t0 > 800 \<or> \<bar>i1 - i0\<bar> < 42 \<or> \<bar>j1 - j0\<bar> > 80 then None
             else if i1 - i0 > 0 then Some Got else Some Pass)"
    if b: "\<bar>i1\<bar> < 2 ^ 52" "\<bar>i0\<bar> < 2 ^ 52" "\<bar>j1\<bar> < 2 ^ 52" "\<bar>j0\<bar> < 2 ^ 52"
  proof -
    have dx: "dsub (of_int i1) (of_int i0) = of_int (i1 - i0)"
      using dsub_of_int [OF b(1) b(2)] by simp
    have dy: "dsub (of_int j1) (of_int j0) = of_int (j1 - j0)"
      using dsub_of_int [OF b(3) b(4)] by simp
    have ax: "\<bar>real_of_int (i1 - i0)\<bar> < 42 \<longleftrightarrow> \<bar>i1 - i0\<bar> < 42"
      by linarith
    have ay: "\<bar>real_of_int (j1 - j0)\<bar> > 80 \<longleftrightarrow> \<bar>j1 - j0\<bar> > 80"
      by linarith
    have sx: "real_of_int (i1 - i0) > 0 \<longleftrightarrow> i1 - i0 > 0"
      by linarith
    show ?thesis
      unfolding gen dx dy ax ay sx by (rule refl)
  qed
  from gen [of x1 y1 x0 y0] pass whole show ?thesis by blast
qed

theorem swipe_classification_witness:
  "mode running1 = Running
   \<and> snd (swipeEnd 50 10 300 running1 (swipeStart 0 0 0 running1 Swipe0)) = Some Got
   \<and> snd (swipeEnd 0 10 300 running1 (swipeStart 50 0 0 running1 Swipe0)) = Some Pass
   \<and> snd (swipeEnd 30 0 300 running1 (swipeStart 0 0 0 running1 Swipe0)) = None
   \<and> snd (swipeEnd 50 0 900 running1 (swipeStart 0 0 0 running1 Swipe0)) = None
   \<and> snd (swipeEnd 50 100 300 running1 (swipeStart 0 0 0 running1 Swipe0)) = None
   \<and> snd (swipeEnd (2976597878715187 / 2 ^ 46) 0 300 running1
        (swipeStart (5404319552844595 / 2 ^ 54) 0 0 running1 Swipe0)) = Some Got
   \<and> snd (swipeEnd 50 (5643573283048653 / 2 ^ 46) 300 running1
        (swipeStart 0 (3602879701896397 / 2 ^ 54) 0 running1 Swipe0)) = Some Got"
proof -
  have h: "mode running1 = Running" by (simp add: running1_def)
  have d: "dsub 50 0 = 50" "dsub 0 0 = 0" "dsub 10 0 = 10" "dsub 0 50 = - 50"
      "dsub 30 0 = 30" "dsub 100 0 = 100"
    using dsub_of_int [of 50 0] dsub_of_int [of 0 0] dsub_of_int [of 10 0]
      dsub_of_int [of 0 50] dsub_of_int [of 30 0] dsub_of_int [of 100 0]
    by simp_all
  have a: "snd (swipeEnd 50 10 300 running1 (swipeStart 0 0 0 running1 Swipe0)) = Some Got"
    using swipe_classification [OF h h, of 50 10 300 0 0 0 Swipe0 50 0 10 0]
    by (simp add: d)
  have b: "snd (swipeEnd 0 10 300 running1 (swipeStart 50 0 0 running1 Swipe0)) = Some Pass"
    using swipe_classification [OF h h, of 0 10 300 50 0 0 Swipe0 0 50 10 0]
    by (simp add: d)
  have c: "snd (swipeEnd 30 0 300 running1 (swipeStart 0 0 0 running1 Swipe0)) = None"
    using swipe_classification [OF h h, of 30 0 300 0 0 0 Swipe0 30 0 0 0]
    by (simp add: d)
  have e: "snd (swipeEnd 50 0 900 running1 (swipeStart 0 0 0 running1 Swipe0)) = None"
    using swipe_classification [OF h h, of 50 0 900 0 0 0 Swipe0 50 0 0 0]
    by (simp add: d)
  have f: "snd (swipeEnd 50 100 300 running1 (swipeStart 0 0 0 running1 Swipe0)) = None"
    using swipe_classification [OF h h, of 50 100 300 0 0 0 Swipe0 50 0 100 0]
    by (simp add: d)
  have g: "snd (swipeEnd (2976597878715187 / 2 ^ 46) 0 300 running1
        (swipeStart (5404319552844595 / 2 ^ 54) 0 0 running1 Swipe0)) = Some Got"
    using swipe_classification [OF h h, of "2976597878715187 / 2 ^ 46" 0 300
        "5404319552844595 / 2 ^ 54" 0 0 Swipe0 0 0 0 0]
      dsub_examples(1)
    by (simp add: d)
  have i: "snd (swipeEnd 50 (5643573283048653 / 2 ^ 46) 300 running1
        (swipeStart 0 (3602879701896397 / 2 ^ 54) 0 running1 Swipe0)) = Some Got"
    using swipe_classification [OF h h, of 50 "5643573283048653 / 2 ^ 46" 300
        0 "3602879701896397 / 2 ^ 54" 0 Swipe0 0 0 0 0]
      dsub_examples(3)
    by (simp add: d)
  from h a b c e f g i show ?thesis by blast
qed

subsection \<open>C6: tilt debounce\<close>

text \<open>
  C6. Let a forward excursion fire \<open>Got\<close> at time \<open>t1\<close>, let the samples that follow
  emit nothing and leave the recognizer armed again (the return to neutral), and let
  the next sample arrive at \<open>t2\<close> with \<open>t2 - t1 < 700\<close>. Then that sample emits
  nothing, whatever its angle, so the whole sequence emits exactly one action.
\<close>

theorem tilt_debounce:
  assumes first: "onDeviceOrientation (Some b1) t1 s = (s1, Some Got)"
    and mid: "tiltRun mid s1 = (acts, s2)" "set acts \<subseteq> {None}" "tiltArmed s2"
    and close: "t2 - t1 < 700"
  shows "fst (tiltRun ((Some b1, t1) # mid @ [(Some b2, t2)]) s) = Some Got # acts @ [None]
     \<and> length (filter (\<lambda>a. a \<noteq> None)
          (fst (tiltRun ((Some b1, t1) # mid @ [(Some b2, t2)]) s))) = 1"
proof -
  have "tiltLastActionAt s1 = t1"
    using first by (rule onDeviceOrientation_fire_stamp)
  with mid have "tiltLastActionAt s2 = t1"
    using tiltRun_silent_keeps_stamp [of mid s1 acts s2] by simp
  with close mid(3) have "snd (onDeviceOrientation (Some b2) t2 s2) = None"
    using onDeviceOrientation_debounced [of s2 t2 "Some b2"] by simp
  then have run: "fst (tiltRun ((Some b1, t1) # mid @ [(Some b2, t2)]) s)
      = Some Got # acts @ [None]"
    using first mid(1) by (auto simp: tiltRun_append split: prod.splits)
  have "filter (\<lambda>a. a \<noteq> None) acts = []"
    using mid(2) by (auto simp: filter_empty_conv)
  with run show ?thesis by simp
qed

theorem tilt_debounce_witness:
  "fst (tiltRun ((Some 65, 2000) # [(Some 40, 2200)] @ [(Some 60, 2400)]) tiltHeld)
     = Some Got # [None] @ [None]
   \<and> forwardTriggerDelta \<le> 60 - tiltNeutralBeta tiltHeld"
proof -
  have first: "onDeviceOrientation (Some 65) 2000 tiltHeld
      = (tiltHeld\<lparr>tiltArmed := False, tiltLastActionAt := 2000,
           tiltStatus := TiltText True PhGotIt\<rparr>, Some Got)"
    by (simp add: tiltHeld_def tiltFresh_def State0_def onRoundStartResetTiltState_def
        tilt_defs Let_def)
  have mid: "tiltRun [(Some 40, 2200)]
       (tiltHeld\<lparr>tiltArmed := False, tiltLastActionAt := 2000,
          tiltStatus := TiltText True PhGotIt\<rparr>)
      = ([None], tiltHeld\<lparr>tiltArmed := True, tiltLastActionAt := 2000,
           tiltStatus := TiltText True PhNeutral\<rparr>)"
    by (simp add: tiltHeld_def tiltFresh_def State0_def onRoundStartResetTiltState_def
        tilt_defs Let_def)
  have far: "forwardTriggerDelta \<le> 60 - tiltNeutralBeta tiltHeld"
    by (simp add: tiltHeld_def forwardTriggerDelta_def)
  show ?thesis
    using far tilt_debounce [OF first mid, of 2400 60] by simp
qed

subsection \<open>C7: nothing leaks into the next round\<close>

text \<open>
  C7. For a non-empty phrase list, take any state, start a round, let anything happen
  (\<open>play\<close>), end the round, let anything happen again (\<open>after\<close>), and start a round
  once more. The second \<open>startRound\<close> returns with the tilt calibration reset (no
  baseline, armed, last action at 0), the counters \<open>shown\<close>, \<open>got\<close>, \<open>pass\<close> and the
  index at 0, and the mode \<open>Running\<close>. The old \<open>tiltNeutralBeta\<close> is still stored but
  dead: the first sample of the new round replaces it.
\<close>

theorem startRound_round_trip:
  assumes "phrases \<noteq> []"
  shows "let s1 = snd (startRound rnd1 t1 phrases s0);
             s2 = endRound reason t2 (play s1);
             s3 = snd (startRound rnd2 t3 phrases (after s2))
         in \<not> tiltHasBaseline s3 \<and> tiltArmed s3 \<and> tiltLastActionAt s3 = 0
            \<and> shown s3 = 0 \<and> got s3 = 0 \<and> pass s3 = 0 \<and> index s3 = 0
            \<and> mode s3 = Running
            \<and> tiltNeutralBeta (calibrateBaseline beta s3) = beta"
  using assms by (simp add: Let_def startRound_fields calibrateBaseline_def)

theorem startRound_round_trip_witness:
  "deck3 \<noteq> []
   \<and> (let s1 = snd (startRound (\<lambda>i. 0) 0 deck3 State0);
           s2 = endRound ''Ended early'' 5000 (advance Got 3000 s1);
           s3 = snd (startRound (\<lambda>i. 0) 9000 deck3 (drain s2))
       in \<not> tiltHasBaseline s3 \<and> tiltArmed s3 \<and> tiltLastActionAt s3 = 0
          \<and> shown s3 = 0 \<and> got s3 = 0 \<and> pass s3 = 0 \<and> index s3 = 0
          \<and> mode s3 = Running
          \<and> tiltNeutralBeta (calibrateBaseline 12 s3) = 12)"
proof -
  have h: "deck3 \<noteq> []" by (simp add: deck3_def)
  show ?thesis
    using h startRound_round_trip [OF h, of "\<lambda>i. 0" 0 State0 "''Ended early''" 5000
        "advance Got 3000" "\<lambda>i. 0" 9000 drain 12]
    by blast
qed

subsection \<open>C8: starting with no phrases\<close>

text \<open>
  C8. With an empty phrase list \<open>startRound\<close> reports the failure (the code does so
  with an \<open>alert\<close>, the text of which is the first component of the result) and returns
  the state it was given, untouched: the mode, the deck, the index, the counters, the
  tilt calibration and the timer are all as before.
\<close>

theorem startRound_empty_deck:
  "fst (startRound rnd now [] s) = Some ''Please add at least one phrase to start.''
   \<and> snd (startRound rnd now [] s) = s
   \<and> mode (snd (startRound rnd now [] State0)) = Setup"
  by (simp add: startRound_def State0_def)

subsection \<open>C9: the round timer\<close>

text \<open>
  C9. \<open>startTimer\<close> records the wall-clock instant of the start. While the timer is
  live, every poll sets \<open>timeLeft\<close> to \<open>max 0 (timerSeconds - elapsed)\<close>, where
  \<open>elapsed\<close> is the whole number of seconds since that instant. A poll that leaves
  time on the clock changes nothing else. A poll that brings \<open>timeLeft\<close> to 0 calls
  \<open>endRound\<close> with \<open>Time is up\<close> once, which clears the timer, so that no later poll
  has any effect. \<open>stopTimer\<close> is idempotent and does nothing when no timer is live.
\<close>

theorem timer_wall_clock:
  assumes "timerId s = Some startedAt"
  shows "timerId (startTimer startedAt s') = Some startedAt
     \<and> timeLeft (timerTick now s) = max 0 (timerSeconds s - of_int ((now - startedAt) div 1000))
     \<and> (0 < timeLeft (timerTick now s) \<longrightarrow>
          timerTick now s = s\<lparr>timeLeft := timeLeft (timerTick now s)\<rparr>)
     \<and> (timeLeft (timerTick now s) = 0 \<longrightarrow>
          timerTick now s = endRound ''Time is up'' now (s\<lparr>timeLeft := 0\<rparr>)
          \<and> timerId (timerTick now s) = None
          \<and> timeouts (timerTick now s)
              = insertTimeout (now + 250, EndRoundTimeout ''Time is up'') (timeouts s)
          \<and> fold timerTick later (timerTick now s) = timerTick now s)
     \<and> stopTimer (stopTimer s') = stopTimer s'
     \<and> (timerId s' = None \<longrightarrow> stopTimer s' = s')"
proof -
  let ?r = "max 0 (timerSeconds s - of_int ((now - startedAt) div 1000))"
  have tl: "timeLeft (timerTick now s) = ?r"
    using assms by (simp add: timerTick_def Let_def endRound_eq)
  have run: "0 < ?r \<Longrightarrow> timerTick now s = s\<lparr>timeLeft := ?r\<rparr>"
    using assms by (simp add: timerTick_def Let_def)
  have fire: "?r = 0 \<Longrightarrow> timerTick now s = endRound ''Time is up'' now (s\<lparr>timeLeft := 0\<rparr>)"
    using assms by (simp add: timerTick_def Let_def)
  have stopped: "timerId (endRound ''Time is up'' now (s\<lparr>timeLeft := 0\<rparr>)) = None"
    by (simp add: endRound_eq)
  have queued: "timeouts (endRound ''Time is up'' now (s\<lparr>timeLeft := 0\<rparr>))
      = insertTimeout (now + 250, EndRoundTimeout ''Time is up'') (timeouts s)"
    by (simp add: endRound_eq)
  have stop: "stopTimer (stopTimer s') = stopTimer s'" "timerId s' = None \<longrightarrow> stopTimer s' = s'"
    by (simp_all add: stopTimer_def)
  have start: "timerId (startTimer startedAt s') = Some startedAt"
    by (simp add: startTimer_def)
  show ?thesis
    using tl run fire stopped queued stop start
    by (auto simp: fold_timerTick_stopped)
qed

theorem timer_wall_clock_witness:
  "timerId round3 = Some 0
   \<and> timeLeft (timerTick 15250 round3) = 45
   \<and> timeLeft (timerTick 60000 round3) = 0
   \<and> timerId (timerTick 60000 round3) = None
   \<and> fold timerTick [60250, 60500] (timerTick 60000 round3) = timerTick 60000 round3
   \<and> timerId State0 = None \<and> stopTimer State0 = State0"
proof -
  have h: "timerId round3 = Some 0" by (simp add: round3_eq State0_def)
  have secs: "timerSeconds round3 = 60" by (simp add: round3_eq State0_def)
  have idle: "timerId State0 = None" by (simp add: State0_def)
  have "timeLeft (timerTick 15250 round3)
      = max 0 (timerSeconds round3 - of_int ((15250 - 0) div 1000))"
    using timer_wall_clock [OF h, of State0 15250 "[]"] by blast
  then have early: "timeLeft (timerTick 15250 round3) = 45"
    by (simp add: secs)
  have "timeLeft (timerTick 60000 round3)
      = max 0 (timerSeconds round3 - of_int ((60000 - 0) div 1000))"
    using timer_wall_clock [OF h, of State0 60000 "[60250, 60500]"] by blast
  then have zero: "timeLeft (timerTick 60000 round3) = 0"
    by (simp add: secs)
  have expiry: "timerId (timerTick 60000 round3) = None
      \<and> fold timerTick [60250, 60500] (timerTick 60000 round3) = timerTick 60000 round3
      \<and> stopTimer State0 = State0"
    using timer_wall_clock [OF h, of State0 60000 "[60250, 60500]"] zero idle by blast
  show ?thesis
    using h idle early zero expiry by blast
qed

subsection \<open>C10: an action in the boundary window, with looping\<close>

text \<open>
  C10. When \<open>advance\<close> is called in \<open>Running\<close> mode with the index at or past the end
  of a non-empty deck and looping is on, the call sets the index to 0, renders the
  first phrase and returns: \<open>shown\<close>, \<open>got\<close> and \<open>pass\<close> are unchanged, the mode is
  still \<open>Running\<close>, no timeout is scheduled, and the action is dropped, whichever it is.
\<close>

theorem advance_wraps_without_scoring:
  assumes "mode s = Running" and "length (deck s) \<le> index s"
    and "loopWhenFinished s" and "deck s \<noteq> []"
  shows "advance act now s = renderCurrentPhrase (s\<lparr>index := 0\<rparr>)
     \<and> index (advance act now s) = 0
     \<and> shown (advance act now s) = shown s
     \<and> got (advance act now s) = got s
     \<and> pass (advance act now s) = pass s
     \<and> mode (advance act now s) = Running
     \<and> timeouts (advance act now s) = timeouts s
     \<and> phraseEl (advance act now s) = fst (hd (deck s))"
  using assms by (cases "deck s") (simp_all add: advance_def renderCurrentPhrase_def)

theorem advance_wraps_without_scoring_witness:
  "mode (threeGots\<lparr>loopWhenFinished := True\<rparr>) = Running
   \<and> length (deck (threeGots\<lparr>loopWhenFinished := True\<rparr>))
       \<le> index (threeGots\<lparr>loopWhenFinished := True\<rparr>)
   \<and> index (advance Got 300 (threeGots\<lparr>loopWhenFinished := True\<rparr>)) = 0
   \<and> shown (advance Got 300 (threeGots\<lparr>loopWhenFinished := True\<rparr>)) = 3
   \<and> got (advance Got 300 (threeGots\<lparr>loopWhenFinished := True\<rparr>)) = 3
   \<and> mode (advance Got 300 (threeGots\<lparr>loopWhenFinished := True\<rparr>)) = Running"
proof -
  have v: "mode threeGots = Running" "index threeGots = 3" "deck threeGots = deck3"
      "shown threeGots = 3" "got threeGots = 3"
    by (simp_all add: threeGots_def round3_eq State0_def deck3_def advance_eq)
  have h: "mode (threeGots\<lparr>loopWhenFinished := True\<rparr>) = Running"
      "length (deck (threeGots\<lparr>loopWhenFinished := True\<rparr>))
         \<le> index (threeGots\<lparr>loopWhenFinished := True\<rparr>)"
      "loopWhenFinished (threeGots\<lparr>loopWhenFinished := True\<rparr>)"
      "deck (threeGots\<lparr>loopWhenFinished := True\<rparr>) \<noteq> []"
    by (simp_all add: v deck3_def)
  have "index (advance Got 300 (threeGots\<lparr>loopWhenFinished := True\<rparr>)) = 0
      \<and> shown (advance Got 300 (threeGots\<lparr>loopWhenFinished := True\<rparr>))
          = shown (threeGots\<lparr>loopWhenFinished := True\<rparr>)
      \<and> got (advance Got 300 (threeGots\<lparr>loopWhenFinished := True\<rparr>))
          = got (threeGots\<lparr>loopWhenFinished := True\<rparr>)
      \<and> mode (advance Got 300 (threeGots\<lparr>loopWhenFinished := True\<rparr>)) = Running"
    using advance_wraps_without_scoring [OF h, of Got 300] by blast
  then show ?thesis
    using h(1,2) by (simp add: v)
qed


end
